theory Spec2Isabelle
  imports Complex_Main "HOL-Library.Word"
begin

section \<open>Capture analysis (sniffer.py)\<close>

text \<open>
  Numbers: Python's floats (packet timestamps, round-trip times, jitter) are idealised as
  \<^typ>\<open>real\<close>; \<open>len(pkt)\<close> is a \<^typ>\<open>nat\<close>, the header fields are Python ints.
  A captured packet is reduced to what \<open>analyze_packets\<close> reads of it: its length, its
  timestamp, and its first IP and first ICMP layer when it has them
  (\<open>IP in pkt\<close>, \<open>pkt[IP]\<close>, \<open>ICMP in pkt\<close>, \<open>pkt[ICMP]\<close>).
\<close>

record ip_hdr =
  src :: string
  dst :: string

record icmp_hdr =
  icmp_type :: int
  icmp_id :: int
  icmp_seq :: int

record packet =
  wire_len :: nat
  time :: real
  ip_layer :: "ip_hdr option"
  icmp_layer :: "icmp_hdr option"

type_synonym probe_key = "string \<times> string \<times> int \<times> int"

type_synonym rtt_state = "real list \<times> (probe_key \<rightharpoonup> real)"

record stats =
  packet_count :: nat
  total_bytes :: nat
  capture_duration_sec :: real
  throughput_bps :: int
  packet_sizes :: "nat list"
  avg_latency_ms :: "real option"
  jitter_ms :: "real option"
  latency_samples :: "real list"

text \<open>Python's \<open>int(x)\<close> on a float: truncation towards zero.\<close>

definition py_int :: "real \<Rightarrow> int" where
  "py_int x = (if 0 \<le> x then \<lfloor>x\<rfloor> else \<lceil>x\<rceil>)"

text \<open>
  The body of the loop of lines 37-48, on the pair \<open>(rtt_list, req_times)\<close>: an echo
  request (type 8) stores its timestamp under \<open>(src, dst, id, seq)\<close>, overwriting what was
  there; an echo reply (type 0) looks up \<open>(dst, src, id, seq)\<close> and, when the key is
  pending, appends the round-trip time in milliseconds and deletes the key.
\<close>

definition echo_step :: "packet \<Rightarrow> rtt_state \<Rightarrow> rtt_state" where
  "echo_step pkt st =
     (case st of (rtt_list, req_times) \<Rightarrow>
        (case ip_layer pkt of
           None \<Rightarrow> st
         | Some ip \<Rightarrow>
            (case icmp_layer pkt of
               None \<Rightarrow> st
             | Some icmp \<Rightarrow>
                 if icmp_type icmp = 8 then
                   (rtt_list,
                    req_times((src ip, dst ip, icmp_id icmp, icmp_seq icmp) \<mapsto> time pkt))
                 else if icmp_type icmp = 0 then
                   (case req_times (dst ip, src ip, icmp_id icmp, icmp_seq icmp) of
                      None \<Rightarrow> st
                    | Some t0 \<Rightarrow>
                        (rtt_list @ [(time pkt - t0) * 1000],
                         req_times((dst ip, src ip, icmp_id icmp, icmp_seq icmp) := None)))
                 else st)))"

fun match_rtts :: "packet list \<Rightarrow> rtt_state \<Rightarrow> rtt_state" where
  "match_rtts [] st = st"
| "match_rtts (pkt # pkts) st = match_rtts pkts (echo_step pkt st)"

text \<open>
  Lines 49-64. \<open>variance ** 0.5\<close> is the square root: the variance is a sum of squares
  over a positive count.
\<close>

definition latency_stats :: "real list \<Rightarrow> real option \<times> real option \<times> real list" where
  "latency_stats rtt_list =
     (if rtt_list \<noteq> [] then
        (let avg_latency = sum_list rtt_list / real (length rtt_list);
             jitter =
               (if length rtt_list > 1 then
                  (let mean = avg_latency;
                       variance = sum_list (map (\<lambda>x. (x - mean) ^ 2) rtt_list)
                                  / real (length rtt_list - 1)
                   in sqrt variance)
                else 0)
         in (Some avg_latency, Some jitter, rtt_list))
      else (None, None, []))"

definition analyze_packets :: "packet list \<Rightarrow> stats" where
  "analyze_packets packets =
     (let total = sum_list (map wire_len packets);
          duration = (if packets \<noteq> [] then time (last packets) - time (hd packets) else 0);
          rtt_list = fst (match_rtts packets ([], Map.empty));
          lat = latency_stats rtt_list
      in \<lparr> packet_count = length packets,
           total_bytes = total,
           capture_duration_sec = (if duration > 0 then duration else 0),
           throughput_bps = (if duration > 0 then py_int (real (total * 8) / duration) else 0),
           packet_sizes = map wire_len packets,
           avg_latency_ms = fst lat,
           jitter_ms = fst (snd lat),
           latency_samples = snd (snd lat) \<rparr>)"

section \<open>Obfuscation transforms (obfuscation.py)\<close>

type_synonym bytes = "8 word list"

datatype py_error = ValueError | RuntimeError

subsection \<open>EncryptionObfuscator\<close>

record encryption_obfuscator =
  key :: bytes

text \<open>\<open>__init__\<close>: the argument is \<open>None\<close> when no key is passed.\<close>

definition encryption_obfuscator_init :: "bytes option \<Rightarrow> py_error + encryption_obfuscator" where
  "encryption_obfuscator_init key_arg =
     (let k = (case key_arg of None \<Rightarrow> replicate 16 1 | Some k' \<Rightarrow> k')
      in if length k \<notin> {16, 24, 32} then Inl ValueError else Inr \<lparr> key = k \<rparr>)"

text \<open>
  The cipher is PyCryptodome's, not code of this repository: \<open>AES.new(key, AES.MODE_EAX)\<close>
  is a parameter \<open>aes_new\<close>, a function of the key and of the randomness \<open>rnd\<close> the
  library draws for the nonce, which returns the cipher object; of that object the code
  reads \<open>nonce\<close> and calls \<open>encrypt_and_digest\<close>, which returns the pair
  \<open>(ciphertext, tag)\<close>. The module is \<open>None\<close> when the import has failed.
\<close>

record eax_cipher =
  nonce :: bytes
  encrypt_and_digest :: "bytes \<Rightarrow> bytes \<times> bytes"

definition encrypt ::
  "(bytes \<Rightarrow> 'r \<Rightarrow> eax_cipher) option \<Rightarrow> encryption_obfuscator \<Rightarrow> 'r \<Rightarrow> bytes
     \<Rightarrow> py_error + bytes" where
  "encrypt AES self rnd data =
     (case AES of
        None \<Rightarrow> Inl RuntimeError
      | Some aes_new \<Rightarrow>
          (let cipher = aes_new (key self) rnd
           in case encrypt_and_digest cipher data of
                (ciphertext, tag) \<Rightarrow> Inr (nonce cipher @ tag @ ciphertext)))"

text \<open>
  The contract of the library the length claims rest on: nonces of \<open>n\<close> bytes, tags of
  \<open>t\<close> bytes, and a ciphertext as long as the plaintext (EAX is a counter mode).
\<close>

definition eax_contract :: "(bytes \<Rightarrow> 'r \<Rightarrow> eax_cipher) \<Rightarrow> nat \<Rightarrow> nat \<Rightarrow> bool" where
  "eax_contract aes_new n t \<longleftrightarrow>
     (\<forall>k rnd data. length (nonce (aes_new k rnd)) = n
        \<and> length (fst (encrypt_and_digest (aes_new k rnd) data)) = length data
        \<and> length (snd (encrypt_and_digest (aes_new k rnd) data)) = t)"

text \<open>
  A stand-in cipher that meets the contract with 16-byte nonces and tags, to run
  \<open>encrypt\<close> on: the nonce is the first 16 bytes of the randomness, the ciphertext the
  plaintext xor-ed with the first key byte.
\<close>

definition xor_eax :: "bytes \<Rightarrow> (nat \<Rightarrow> 8 word) \<Rightarrow> eax_cipher" where
  "xor_eax k rnd =
     \<lparr> nonce = map rnd [0..<16],
       encrypt_and_digest = (\<lambda>data. (map (\<lambda>b. xor b (hd k)) data, replicate 16 (hd k))) \<rparr>"

subsection \<open>PaddingObfuscator\<close>

record padding_obfuscator =
  min_pad :: int
  max_pad :: int

text \<open>
  Randomness is passed in: \<open>r\<close> is the raw draw behind \<open>random.randint\<close>, \<open>rnd\<close> the
  byte source behind \<open>os.urandom\<close>. \<open>random.randint(a, b)\<close> raises \<open>ValueError\<close> on
  an empty range and otherwise returns an integer of \<open>[a, b]\<close>.
\<close>

definition randint :: "int \<Rightarrow> int \<Rightarrow> nat \<Rightarrow> py_error + int" where
  "randint a b r = (if a > b then Inl ValueError else Inr (a + int (r mod nat (b - a + 1))))"

definition urandom :: "(nat \<Rightarrow> 8 word) \<Rightarrow> nat \<Rightarrow> bytes" where
  "urandom rnd n = map rnd [0..<n]"

text \<open>Line 45 of \<open>pad\<close>: the pad length drawn.\<close>

definition draw_pad_length :: "padding_obfuscator \<Rightarrow> nat \<Rightarrow> py_error + int" where
  "draw_pad_length self r =
     (if max_pad self > 0 then randint (min_pad self) (max_pad self) r else Inr 0)"

definition pad :: "padding_obfuscator \<Rightarrow> nat \<Rightarrow> (nat \<Rightarrow> 8 word) \<Rightarrow> bytes \<Rightarrow> py_error + bytes" where
  "pad self r rnd data =
     (case draw_pad_length self r of
        Inl e \<Rightarrow> Inl e
      | Inr pad_length \<Rightarrow>
          if pad_length \<le> 0 then Inr data
          else Inr (data @ urandom rnd (nat pad_length)))"

subsection \<open>TrafficShaper\<close>

record traffic_shaper =
  mode :: string
  min_delay :: real
  max_delay :: real
  rate_bps :: "real option"

text \<open>
  \<open>shape\<close> returns nothing; what it does is block in \<open>time.sleep\<close>. The model returns
  the time slept: \<open>Some d\<close> after \<open>time.sleep(d)\<close>, \<open>None\<close> when no sleep is made.
  \<open>time.sleep\<close> raises \<open>ValueError\<close> on a negative length. \<open>random.uniform(a, b)\<close> is
  \<open>a + (b - a) * random()\<close>, with the draw \<open>u\<close> of \<open>random()\<close> passed in. The
  conditions \<open>self.rate_bps\<close> and \<open>packet_size\<close> are Python truth values: neither
  \<open>None\<close> nor zero.
\<close>

definition sleep :: "real \<Rightarrow> py_error + real option" where
  "sleep d = (if d < 0 then Inl ValueError else Inr (Some d))"

definition shape :: "traffic_shaper \<Rightarrow> real \<Rightarrow> int option \<Rightarrow> py_error + real option" where
  "shape self u packet_size =
     (if mode self = ''random'' then
        sleep (min_delay self + (max_delay self - min_delay self) * u)
      else if mode self = ''constant'' then
        (case (rate_bps self, packet_size) of
           (Some rate, Some psize) \<Rightarrow>
             if rate \<noteq> 0 \<and> psize \<noteq> 0 then
               (let delay = (real_of_int psize * 8) / rate
                in if delay > 0 then sleep delay else Inr None)
             else sleep (min_delay self)
         | _ \<Rightarrow> sleep (min_delay self))
      else Inr None)"

section \<open>Vocabulary of the claims about matching\<close>

text \<open>
  The key an echo request is stored under, and the key an echo reply looks up (its source
  and destination reversed). A packet touches a key when it is a request stored under it
  or a reply that looks it up.
\<close>

definition request_key :: "packet \<Rightarrow> probe_key option" where
  "request_key pkt =
     (case ip_layer pkt of
        None \<Rightarrow> None
      | Some ip \<Rightarrow>
         (case icmp_layer pkt of
            None \<Rightarrow> None
          | Some icmp \<Rightarrow>
              if icmp_type icmp = 8 then Some (src ip, dst ip, icmp_id icmp, icmp_seq icmp)
              else None))"

definition reply_key :: "packet \<Rightarrow> probe_key option" where
  "reply_key pkt =
     (case ip_layer pkt of
        None \<Rightarrow> None
      | Some ip \<Rightarrow>
         (case icmp_layer pkt of
            None \<Rightarrow> None
          | Some icmp \<Rightarrow>
              if icmp_type icmp = 0 then Some (dst ip, src ip, icmp_id icmp, icmp_seq icmp)
              else None))"

definition touches :: "probe_key \<Rightarrow> packet \<Rightarrow> bool" where
  "touches k pkt \<longleftrightarrow> request_key pkt = Some k \<or> reply_key pkt = Some k"

text \<open>The round-trip time of the pair of trace positions \<open>(i, j)\<close>, in milliseconds.\<close>

definition rtt_of :: "packet list \<Rightarrow> nat \<times> nat \<Rightarrow> real" where
  "rtt_of tr ij = (time (tr ! snd ij) - time (tr ! fst ij)) * 1000"

text \<open>
  What the claims ask of a list \<open>ms\<close> of matched pairs of positions of a trace: each pair
  is a request and a later reply with the request's key reversed, with no packet touching
  that key in between; no request and no reply is in two pairs.
\<close>

definition matched_pair :: "packet list \<Rightarrow> nat \<Rightarrow> nat \<times> nat \<Rightarrow> bool" where
  "matched_pair tr n ij \<longleftrightarrow>
     fst ij < snd ij \<and> snd ij < n \<and> request_key (tr ! fst ij) \<noteq> None \<and>
     reply_key (tr ! snd ij) = request_key (tr ! fst ij) \<and>
     (\<forall>l. fst ij < l \<and> l < snd ij \<longrightarrow>
        request_key (tr ! l) \<noteq> request_key (tr ! fst ij) \<and>
        reply_key (tr ! l) \<noteq> request_key (tr ! fst ij))"

definition matching :: "packet list \<Rightarrow> (nat \<times> nat) list \<Rightarrow> bool" where
  "matching tr ms \<longleftrightarrow>
     (\<forall>ij \<in> set ms. matched_pair tr (length tr) ij) \<and>
     distinct (map fst ms) \<and> distinct (map snd ms)"

text \<open>
  The loop of lines 37-48 again, recording positions instead of timestamps: the pending
  map holds the position of the request, a match appends the pair of positions. It is
  only a device of the proofs: \<open>match_rtts\<close> is shown to compute the image of what this
  loop computes.
\<close>

type_synonym pair_state = "(nat \<times> nat) list \<times> (probe_key \<rightharpoonup> nat)"

definition pair_step :: "nat \<Rightarrow> packet \<Rightarrow> pair_state \<Rightarrow> pair_state" where
  "pair_step n pkt st =
     (case st of (ms, pend) \<Rightarrow>
        (case request_key pkt of
           Some k \<Rightarrow> (ms, pend(k \<mapsto> n))
         | None \<Rightarrow>
            (case reply_key pkt of
               None \<Rightarrow> st
             | Some k \<Rightarrow>
                (case pend k of
                   None \<Rightarrow> st
                 | Some i \<Rightarrow> (ms @ [(i, n)], pend(k := None))))))"

fun pair_loop :: "nat \<Rightarrow> packet list \<Rightarrow> pair_state \<Rightarrow> pair_state" where
  "pair_loop n [] st = st"
| "pair_loop n (pkt # pkts) st = pair_loop (Suc n) pkts (pair_step n pkt st)"

definition timed :: "packet list \<Rightarrow> pair_state \<Rightarrow> rtt_state" where
  "timed tr st = (map (rtt_of tr) (fst st), \<lambda>k. map_option (\<lambda>i. time (tr ! i)) (snd st k))"

definition pair_inv :: "packet list \<Rightarrow> nat \<Rightarrow> pair_state \<Rightarrow> bool" where
  "pair_inv tr n st \<longleftrightarrow>
     (\<forall>ij \<in> set (fst st). matched_pair tr n ij) \<and>
     (\<forall>k i. snd st k = Some i \<longrightarrow>
        i < n \<and> request_key (tr ! i) = Some k \<and> (\<forall>l. i < l \<and> l < n \<longrightarrow> \<not> touches k (tr ! l))) \<and>
     distinct (map fst (fst st)) \<and> distinct (map snd (fst st))"

text \<open>
  The jitter as the specification words it: the sample standard deviation of the
  round-trip times, with the divisor \<open>n - 1\<close>.
\<close>

definition sample_mean :: "real list \<Rightarrow> real" where
  "sample_mean xs = (\<Sum>x\<leftarrow>xs. x) / real (length xs)"

definition sample_stddev :: "real list \<Rightarrow> real" where
  "sample_stddev xs = sqrt ((\<Sum>x\<leftarrow>xs. (x - sample_mean xs)\<^sup>2) / (real (length xs) - 1))"

text \<open>Packets to run the analysis on: 100-byte echo requests and replies, and a packet
  without an IP layer.\<close>

definition echo_request :: "string \<Rightarrow> string \<Rightarrow> int \<Rightarrow> int \<Rightarrow> real \<Rightarrow> packet" where
  "echo_request a b i s t =
     \<lparr> wire_len = 100, time = t, ip_layer = Some \<lparr> src = a, dst = b \<rparr>,
       icmp_layer = Some \<lparr> icmp_type = 8, icmp_id = i, icmp_seq = s \<rparr> \<rparr>"

definition echo_reply :: "string \<Rightarrow> string \<Rightarrow> int \<Rightarrow> int \<Rightarrow> real \<Rightarrow> packet" where
  "echo_reply a b i s t =
     \<lparr> wire_len = 100, time = t, ip_layer = Some \<lparr> src = a, dst = b \<rparr>,
       icmp_layer = Some \<lparr> icmp_type = 0, icmp_id = i, icmp_seq = s \<rparr> \<rparr>"

definition arp_packet :: "real \<Rightarrow> packet" where
  "arp_packet t = \<lparr> wire_len = 42, time = t, ip_layer = None, icmp_layer = None \<rparr>"

section \<open>The matching loop\<close>

text \<open>
  How one packet changes the loop state, by the kind of packet.
\<close>

lemma request_not_reply: "request_key p = Some k \<Longrightarrow> reply_key p = None"
  by (auto simp: request_key_def reply_key_def split: option.splits if_splits)

lemma echo_step_request:
  "request_key p = Some k \<Longrightarrow> echo_step p (r, m) = (r, m(k \<mapsto> time p))"
  by (auto simp: request_key_def echo_step_def split: option.splits if_splits)

lemma echo_step_reply:
  "reply_key p = Some k \<Longrightarrow>
   echo_step p (r, m) =
     (case m k of None \<Rightarrow> (r, m) | Some t0 \<Rightarrow> (r @ [(time p - t0) * 1000], m(k := None)))"
  by (auto simp: reply_key_def echo_step_def split: option.splits if_splits)

lemma echo_step_other:
  "request_key p = None \<Longrightarrow> reply_key p = None \<Longrightarrow> echo_step p st = st"
  by (auto simp: request_key_def reply_key_def echo_step_def split: option.splits if_splits prod.splits)

text \<open>
  The loop over a concatenation; the samples already collected are only appended to;
  packets that do not touch a key neither read nor change its pending entry.
\<close>

lemma match_rtts_append: "match_rtts (ps @ qs) st = match_rtts qs (match_rtts ps st)"
  by (induction ps arbitrary: st) auto

lemma echo_step_acc:
  "echo_step p (r, m) = (r @ fst (echo_step p ([], m)), snd (echo_step p ([], m)))"
proof (cases "request_key p")
  case (Some k)
  then show ?thesis by (simp add: echo_step_request)
next
  case None
  show ?thesis
  proof (cases "reply_key p")
    case None
    with \<open>request_key p = None\<close> show ?thesis by (simp add: echo_step_other)
  next
    case (Some k)
    then show ?thesis by (simp add: echo_step_reply split: option.splits)
  qed
qed

lemma match_rtts_acc:
  "match_rtts ps (r, m) = (r @ fst (match_rtts ps ([], m)), snd (match_rtts ps ([], m)))"
proof (induction ps arbitrary: r m)
  case Nil
  then show ?case by simp
next
  case (Cons p ps)
  obtain a m' where e: "echo_step p ([], m) = (a, m')" by (cases "echo_step p ([], m)")
  have e': "echo_step p (r, m) = (r @ a, m')"
    using echo_step_acc [of p r m] e by simp
  show ?case
    using Cons.IH [of "r @ a" m'] Cons.IH [of a m'] e e' by simp
qed

lemma echo_step_frame:
  assumes "\<not> touches k p"
  shows "echo_step p (r, m(k := x)) =
         (fst (echo_step p (r, m)), (snd (echo_step p (r, m)))(k := x))"
proof (cases "request_key p")
  case (Some k')
  with assms have "k' \<noteq> k" by (auto simp: touches_def)
  with Some show ?thesis by (simp add: echo_step_request fun_upd_twist)
next
  case None
  show ?thesis
  proof (cases "reply_key p")
    case None
    with \<open>request_key p = None\<close> show ?thesis by (simp add: echo_step_other)
  next
    case (Some k')
    with assms have "k' \<noteq> k" by (auto simp: touches_def)
    with Some show ?thesis by (auto simp add: echo_step_reply fun_upd_twist split: option.splits)
  qed
qed

lemma match_rtts_frame:
  assumes "\<forall>p \<in> set ps. \<not> touches k p"
  shows "match_rtts ps (r, m(k := x)) =
         (fst (match_rtts ps (r, m)), (snd (match_rtts ps (r, m)))(k := x))"
  using assms
proof (induction ps arbitrary: r m)
  case Nil
  then show ?case by simp
next
  case (Cons p ps)
  obtain r' m' where e: "echo_step p (r, m) = (r', m')" by (cases "echo_step p (r, m)")
  have nt: "\<not> touches k p" and rest: "\<forall>p \<in> set ps. \<not> touches k p"
    using Cons.prems by simp_all
  have s1: "echo_step p (r, m(k := x)) = (r', m'(k := x))"
    unfolding echo_step_frame [OF nt] e by simp
  have "match_rtts (p # ps) (r, m(k := x)) = match_rtts ps (r', m'(k := x))"
    by (simp only: match_rtts.simps s1)
  also have "\<dots> = (fst (match_rtts ps (r', m')), (snd (match_rtts ps (r', m')))(k := x))"
    by (rule Cons.IH [OF rest])
  also have "match_rtts ps (r', m') = match_rtts (p # ps) (r, m)"
    by (simp only: match_rtts.simps e)
  finally show ?case .
qed

lemma latency_samples_analyze:
  "latency_samples (analyze_packets ps) = fst (match_rtts ps ([], Map.empty))"
  by (simp add: analyze_packets_def latency_stats_def Let_def)

text \<open>
  A request followed by its reply, with nothing touching the key in between, yields one
  sample; a request that nothing answers yields none; requests alone yield none.
\<close>

lemma reply_consumes:
  assumes rq: "request_key req = Some k" and rp: "reply_key rep = Some k"
    and mid: "\<forall>p \<in> set mid. \<not> touches k p" and post: "\<forall>p \<in> set post. \<not> touches k p"
  shows "fst (match_rtts (pre @ req # mid @ rep # post) st) =
         fst (match_rtts (pre @ mid) st) @ (time rep - time req) * 1000 #
         drop (length (fst (match_rtts (pre @ mid) st))) (fst (match_rtts (pre @ mid @ post) st))"
proof -
  define x where "x = (time rep - time req) * 1000"
  obtain r0 m0 where s0: "match_rtts pre st = (r0, m0)" by (cases "match_rtts pre st")
  obtain r1 m1 where s1: "match_rtts mid (r0, m0) = (r1, m1)" by (cases "match_rtts mid (r0, m0)")
  obtain r2 m2 where s2: "match_rtts post ([], m1) = (r2, m2)" by (cases "match_rtts post ([], m1)")
  have a: "match_rtts mid (r0, m0(k \<mapsto> time req)) = (r1, m1(k \<mapsto> time req))"
    using match_rtts_frame [OF mid, of r0 m0 "Some (time req)"] s1 by simp
  have b: "echo_step rep (r1, m1(k \<mapsto> time req)) = (r1 @ [x], m1(k := None))"
    using rp by (simp add: echo_step_reply x_def)
  have c: "fst (match_rtts post (r1 @ [x], m1(k := None))) = fst (match_rtts post (r1 @ [x], m1))"
    using match_rtts_frame [OF post, of "r1 @ [x]" m1 None] by simp
  have d: "fst (match_rtts post (r1 @ [x], m1)) = r1 @ x # r2"
    using match_rtts_acc [of post "r1 @ [x]" m1] s2 by simp
  have e: "fst (match_rtts post (r1, m1)) = r1 @ r2"
    using match_rtts_acc [of post r1 m1] s2 by simp
  have "match_rtts (pre @ req # mid @ rep # post) st =
        match_rtts post (r1 @ [x], m1(k := None))"
    by (simp only: match_rtts_append match_rtts.simps s0 echo_step_request [OF rq] a b)
  then have whole: "fst (match_rtts (pre @ req # mid @ rep # post) st) = r1 @ x # r2"
    by (simp only: c d)
  have pm: "fst (match_rtts (pre @ mid) st) = r1"
    by (simp add: match_rtts_append s0 s1)
  have pmp: "fst (match_rtts (pre @ mid @ post) st) = r1 @ r2"
    by (simp add: match_rtts_append s0 s1 e)
  show ?thesis unfolding x_def [symmetric] by (simp add: whole pm pmp)
qed

lemma reply_appends:
  assumes rq: "request_key req = Some k" and rp: "reply_key rep = Some k"
    and mid: "\<forall>p \<in> set mid. \<not> touches k p"
  shows "fst (match_rtts (pre @ req # mid @ rep # post) st) =
         fst (match_rtts (pre @ mid) st) @ (time rep - time req) * 1000 #
         fst (match_rtts post ([], (snd (match_rtts (pre @ mid) st))(k := None)))"
proof -
  define x where "x = (time rep - time req) * 1000"
  obtain r0 m0 where s0: "match_rtts pre st = (r0, m0)" by (cases "match_rtts pre st")
  obtain r1 m1 where s1: "match_rtts mid (r0, m0) = (r1, m1)" by (cases "match_rtts mid (r0, m0)")
  have a: "match_rtts mid (r0, m0(k \<mapsto> time req)) = (r1, m1(k \<mapsto> time req))"
    using match_rtts_frame [OF mid, of r0 m0 "Some (time req)"] s1 by simp
  have b: "echo_step rep (r1, m1(k \<mapsto> time req)) = (r1 @ [x], m1(k := None))"
    using rp by (simp add: echo_step_reply x_def)
  have c: "fst (match_rtts post (r1 @ [x], m1(k := None))) =
           r1 @ x # fst (match_rtts post ([], m1(k := None)))"
    using match_rtts_acc [of post "r1 @ [x]" "m1(k := None)"] by simp
  have "match_rtts (pre @ req # mid @ rep # post) st =
        match_rtts post (r1 @ [x], m1(k := None))"
    by (simp only: match_rtts_append match_rtts.simps s0 echo_step_request [OF rq] a b)
  then have whole: "fst (match_rtts (pre @ req # mid @ rep # post) st) =
                    r1 @ x # fst (match_rtts post ([], m1(k := None)))"
    by (simp only: c)
  have pm: "match_rtts (pre @ mid) st = (r1, m1)"
    by (simp add: match_rtts_append s0 s1)
  show ?thesis unfolding x_def [symmetric] whole pm by simp
qed

lemma unanswered_request:
  assumes rq: "request_key req = Some k" and qs: "\<forall>p \<in> set qs. \<not> touches k p"
  shows "fst (match_rtts (pre @ req # qs) st) = fst (match_rtts (pre @ qs) st)"
proof -
  obtain r0 m0 where s0: "match_rtts pre st = (r0, m0)" by (cases "match_rtts pre st")
  have "match_rtts qs (r0, m0(k \<mapsto> time req)) =
        (fst (match_rtts qs (r0, m0)), (snd (match_rtts qs (r0, m0)))(k \<mapsto> time req))"
    by (rule match_rtts_frame [OF qs])
  then show ?thesis
    by (simp add: match_rtts_append s0 echo_step_request [OF rq])
qed

lemma requests_only:
  "\<forall>p \<in> set rs. request_key p \<noteq> None \<Longrightarrow> fst (match_rtts rs st) = fst st"
proof (induction rs arbitrary: st)
  case Nil
  then show ?case by simp
next
  case (Cons p rs)
  obtain k where k: "request_key p = Some k" using Cons.prems by auto
  obtain r m where st: "st = (r, m)" by (cases st)
  show ?case using Cons.IH [of "echo_step p st"] Cons.prems
    by (simp add: st echo_step_request [OF k])
qed

lemma analyze_trailing_requests:
  assumes "\<forall>p \<in> set rs. request_key p \<noteq> None"
  shows "latency_samples (analyze_packets (tr @ rs)) = latency_samples (analyze_packets tr) \<and>
         avg_latency_ms (analyze_packets (tr @ rs)) = avg_latency_ms (analyze_packets tr) \<and>
         jitter_ms (analyze_packets (tr @ rs)) = jitter_ms (analyze_packets tr)"
proof -
  have "fst (match_rtts (tr @ rs) ([], Map.empty)) = fst (match_rtts tr ([], Map.empty))"
    using requests_only [OF assms] by (simp add: match_rtts_append)
  then show ?thesis by (simp add: analyze_packets_def Let_def)
qed

text \<open>
  The loop on timestamps is the image of the loop on positions, and the loop on positions
  keeps the invariant \<open>pair_inv\<close>.
\<close>

lemma echo_step_timed:
  assumes "tr ! n = p"
  shows "echo_step p (timed tr st) = timed tr (pair_step n p st)"
proof -
  obtain ms pend where st: "st = (ms, pend)" by (cases st)
  show ?thesis
  proof (cases "request_key p")
    case (Some k)
    then show ?thesis using assms
      by (auto simp: st timed_def pair_step_def echo_step_request)
  next
    case None
    note rn = this
    show ?thesis
    proof (cases "reply_key p")
      case None
      with rn show ?thesis by (simp add: st pair_step_def echo_step_other)
    next
      case (Some k)
      show ?thesis
      proof (cases "pend k")
        case None
        with rn Some show ?thesis by (simp add: st timed_def pair_step_def echo_step_reply)
      next
        case (Some i)
        with rn \<open>reply_key p = Some k\<close> show ?thesis using assms
          by (auto simp: st timed_def pair_step_def echo_step_reply rtt_of_def)
      qed
    qed
  qed
qed

lemma match_rtts_timed:
  "drop n tr = ps \<Longrightarrow> match_rtts ps (timed tr st) = timed tr (pair_loop n ps st)"
proof (induction ps arbitrary: n st)
  case Nil
  then show ?case by simp
next
  case (Cons p ps)
  have n: "n < length tr" using Cons.prems by (cases "n < length tr") auto
  have p: "tr ! n = p" using Cons.prems n by (metis nth_via_drop)
  have d: "drop (Suc n) tr = ps" using Cons.prems by (metis drop_Suc tl_drop list.sel(3))
  show ?case
    using Cons.IH [OF d, of "pair_step n p st"] echo_step_timed [OF p, of st] by simp
qed

lemma matched_pair_mono: "matched_pair tr n ij \<Longrightarrow> n \<le> n' \<Longrightarrow> matched_pair tr n' ij"
  by (auto simp: matched_pair_def)

lemma pending_step:
  assumes old: "i < n \<and> request_key (tr ! i) = Some k' \<and> (\<forall>l. i < l \<and> l < n \<longrightarrow> \<not> touches k' (tr ! l))"
    and nt: "\<not> touches k' (tr ! n)"
  shows "i < Suc n \<and> request_key (tr ! i) = Some k' \<and> (\<forall>l. i < l \<and> l < Suc n \<longrightarrow> \<not> touches k' (tr ! l))"
  using old nt by (auto simp: less_Suc_eq)

lemma pair_step_inv:
  assumes inv: "pair_inv tr n st"
  shows "pair_inv tr (Suc n) (pair_step n (tr ! n) st)"
proof -
  obtain ms pend where st: "st = (ms, pend)" by (cases st)
  have pairs: "\<forall>ij \<in> set ms. matched_pair tr n ij"
    and pending: "\<And>k i. pend k = Some i \<Longrightarrow>
        i < n \<and> request_key (tr ! i) = Some k \<and> (\<forall>l. i < l \<and> l < n \<longrightarrow> \<not> touches k (tr ! l))"
    and d1: "distinct (map fst ms)" and d2: "distinct (map snd ms)"
    using inv unfolding pair_inv_def st fst_conv snd_conv by blast+
  have pairs': "\<forall>ij \<in> set ms. matched_pair tr (Suc n) ij"
    using pairs matched_pair_mono [of tr n _ "Suc n"] by auto
  show ?thesis
  proof (cases "request_key (tr ! n)")
    case (Some k)
    have rn: "reply_key (tr ! n) = None" by (rule request_not_reply [OF Some])
    have step: "pair_step n (tr ! n) st = (ms, pend(k \<mapsto> n))"
      by (simp add: pair_step_def st Some)
    have "i < Suc n \<and> request_key (tr ! i) = Some k' \<and>
          (\<forall>l. i < l \<and> l < Suc n \<longrightarrow> \<not> touches k' (tr ! l))"
      if "(pend(k \<mapsto> n)) k' = Some i" for k' i
    proof (cases "k' = k")
      case True
      with that have "i = n" by simp
      with True Some show ?thesis by auto
    next
      case False
      with that have "pend k' = Some i" by simp
      moreover have "\<not> touches k' (tr ! n)" using False Some rn by (simp add: touches_def)
      ultimately show ?thesis using pending_step [of i n tr k'] pending by blast
    qed
    then show ?thesis
      unfolding step pair_inv_def fst_conv snd_conv using pairs' d1 d2 by blast
  next
    case None
    note rq = this
    show ?thesis
    proof (cases "reply_key (tr ! n)")
      case None
      have step: "pair_step n (tr ! n) st = (ms, pend)"
        by (simp add: pair_step_def st rq None)
      have "\<not> touches k' (tr ! n)" for k' using rq None by (simp add: touches_def)
      then have "i < Suc n \<and> request_key (tr ! i) = Some k' \<and>
          (\<forall>l. i < l \<and> l < Suc n \<longrightarrow> \<not> touches k' (tr ! l))"
        if "pend k' = Some i" for k' i
        using pending_step [of i n tr k'] pending [OF that] by blast
      then show ?thesis
        unfolding step pair_inv_def fst_conv snd_conv using pairs' d1 d2 by blast
    next
      case (Some k)
      note rp = this
      have others: "i < Suc n \<and> request_key (tr ! i) = Some k' \<and>
          (\<forall>l. i < l \<and> l < Suc n \<longrightarrow> \<not> touches k' (tr ! l))"
        if "pend k' = Some i" "k' \<noteq> k" for k' i
      proof -
        have "\<not> touches k' (tr ! n)" using rq rp that(2) by (simp add: touches_def)
        then show ?thesis using pending_step [of i n tr k'] pending [OF that(1)] by blast
      qed
      show ?thesis
      proof (cases "pend k")
        case None
        have step: "pair_step n (tr ! n) st = (ms, pend)"
          by (simp add: pair_step_def st rq rp None)
        have "k' \<noteq> k" if "pend k' = Some i" for k' i using that None by auto
        then show ?thesis
          unfolding step pair_inv_def fst_conv snd_conv using pairs' d1 d2 others by blast
      next
        case (Some i)
        have step: "pair_step n (tr ! n) st = (ms @ [(i, n)], pend(k := None))"
          by (simp add: pair_step_def st rq rp Some)
        have pi: "i < n" "request_key (tr ! i) = Some k"
          "\<forall>l. i < l \<and> l < n \<longrightarrow> \<not> touches k (tr ! l)"
          using pending [OF Some] by auto
        have new: "matched_pair tr (Suc n) (i, n)"
          using pi rp by (auto simp: matched_pair_def touches_def)
        have sn: "n \<notin> snd ` set ms"
          using pairs by (auto simp: matched_pair_def)
        have fi: "i \<notin> fst ` set ms"
        proof
          assume "i \<in> fst ` set ms"
          then obtain j where ij: "(i, j) \<in> set ms" by auto
          with pairs have "matched_pair tr n (i, j)" by blast
          then have "i < j" "j < n" "reply_key (tr ! j) = Some k"
            using pi(2) by (auto simp: matched_pair_def)
          then show False using pi(3) by (auto simp: touches_def)
        qed
        have pend': "i' < Suc n \<and> request_key (tr ! i') = Some k' \<and>
            (\<forall>l. i' < l \<and> l < Suc n \<longrightarrow> \<not> touches k' (tr ! l))"
          if "(pend(k := None)) k' = Some i'" for k' i'
          using that others [of k' i'] by (cases "k' = k") auto
        have p2: "\<forall>ij \<in> set (ms @ [(i, n)]). matched_pair tr (Suc n) ij"
          using pairs' new by simp
        have d1': "distinct (map fst (ms @ [(i, n)]))" using d1 fi by simp
        have d2': "distinct (map snd (ms @ [(i, n)]))" using d2 sn by simp
        show ?thesis
          unfolding step pair_inv_def fst_conv snd_conv using p2 d1' d2' pend' by blast
      qed
    qed
  qed
qed

lemma pair_loop_inv:
  "pair_inv tr n st \<Longrightarrow> n \<le> length tr \<Longrightarrow> drop n tr = ps \<Longrightarrow>
   pair_inv tr (length tr) (pair_loop n ps st)"
proof (induction ps arbitrary: n st)
  case Nil
  then have "n = length tr" by simp
  with Nil show ?case by simp
next
  case (Cons p ps)
  have n: "n < length tr" using Cons.prems by (cases "n < length tr") auto
  have p: "tr ! n = p" using Cons.prems n by (metis nth_via_drop)
  have d: "drop (Suc n) tr = ps" using Cons.prems by (metis drop_Suc tl_drop list.sel(3))
  have i: "pair_inv tr (Suc n) (pair_step n p st)"
    using pair_step_inv [OF Cons.prems(1)] p by simp
  show ?case
    using Cons.IH [OF i _ d] n by simp
qed

lemma pair_inv_init: "pair_inv tr 0 ([], Map.empty)"
  by (simp add: pair_inv_def)

lemma timed_init: "timed tr ([], Map.empty) = ([], Map.empty)"
  by (simp add: timed_def)

lemma samples_matching:
  "\<exists>ms. fst (match_rtts tr ([], Map.empty)) = map (rtt_of tr) ms \<and> matching tr ms"
proof -
  define g where "g = pair_loop 0 tr ([], Map.empty)"
  have "match_rtts tr (timed tr ([], Map.empty)) = timed tr g"
    unfolding g_def by (rule match_rtts_timed) simp
  then have a: "fst (match_rtts tr ([], Map.empty)) = map (rtt_of tr) (fst g)"
    by (simp add: timed_init) (simp add: timed_def)
  have "pair_inv tr (length tr) g"
    unfolding g_def by (rule pair_loop_inv [OF pair_inv_init]) simp_all
  then have "matching tr (fst g)"
    unfolding pair_inv_def matching_def by blast
  with a show ?thesis by blast
qed

text \<open>
  Facts to evaluate the analysis on explicit traces.
\<close>

lemmas run_analysis =
  analyze_packets_def latency_stats_def echo_step_def py_int_def
  echo_request_def echo_reply_def arp_packet_def

lemmas run_keys = request_key_def reply_key_def touches_def
  echo_request_def echo_reply_def arp_packet_def

section \<open>Properties of the capture analysis\<close>

text \<open>
  C9: the analysis of the empty trace does not fail; it returns the record with packet
  count 0, total bytes 0, capture duration 0, throughput 0, no average latency, no jitter
  and an empty list of latency samples.
\<close>

theorem analyze_packets_empty:
  "analyze_packets [] =
     \<lparr> packet_count = 0, total_bytes = 0, capture_duration_sec = 0, throughput_bps = 0,
       packet_sizes = [], avg_latency_ms = None, jitter_ms = None, latency_samples = [] \<rparr>"
  by (simp add: analyze_packets_def latency_stats_def)

text \<open>
  C1, as the code has it: with exactly one round-trip sample the jitter is the number 0
  (line 57), not null; with two or more samples it is the sample standard deviation with
  the divisor \<open>n - 1\<close>.
\<close>

theorem jitter_by_sample_count:
  "(length (latency_samples (analyze_packets tr)) = 1 \<longrightarrow>
      jitter_ms (analyze_packets tr) = Some 0) \<and>
   (2 \<le> length (latency_samples (analyze_packets tr)) \<longrightarrow>
      jitter_ms (analyze_packets tr) =
        Some (sample_stddev (latency_samples (analyze_packets tr))))"
  by (auto simp: analyze_packets_def latency_stats_def Let_def sample_stddev_def
      sample_mean_def of_nat_diff)

text \<open>
  The two cases of C1 on traces: one matched pair gives jitter 0; three matched pairs with
  round-trip times 1000, 2000 and 3000 ms give jitter 1000.
\<close>

theorem jitter_by_sample_count_witness:
  "length (latency_samples (analyze_packets
      [echo_request ''A'' ''B'' 1 0 0, echo_reply ''B'' ''A'' 1 0 2])) = 1 \<and>
   jitter_ms (analyze_packets
      [echo_request ''A'' ''B'' 1 0 0, echo_reply ''B'' ''A'' 1 0 2]) = Some 0 \<and>
   2 \<le> length (latency_samples (analyze_packets
      [echo_request ''A'' ''B'' 1 0 0, echo_reply ''B'' ''A'' 1 0 1,
       echo_request ''A'' ''B'' 1 1 2, echo_reply ''B'' ''A'' 1 1 4,
       echo_request ''A'' ''B'' 1 2 5, echo_reply ''B'' ''A'' 1 2 8])) \<and>
   jitter_ms (analyze_packets
      [echo_request ''A'' ''B'' 1 0 0, echo_reply ''B'' ''A'' 1 0 1,
       echo_request ''A'' ''B'' 1 1 2, echo_reply ''B'' ''A'' 1 1 4,
       echo_request ''A'' ''B'' 1 2 5, echo_reply ''B'' ''A'' 1 2 8]) =
     Some (sample_stddev [1000, 2000, 3000]) \<and>
   sample_stddev [1000, 2000, 3000] = 1000"
proof -
  let ?one = "[echo_request ''A'' ''B'' 1 0 0, echo_reply ''B'' ''A'' 1 0 2]"
  let ?three = "[echo_request ''A'' ''B'' 1 0 0, echo_reply ''B'' ''A'' 1 0 1,
       echo_request ''A'' ''B'' 1 1 2, echo_reply ''B'' ''A'' 1 1 4,
       echo_request ''A'' ''B'' 1 2 5, echo_reply ''B'' ''A'' 1 2 8]"
  have one: "latency_samples (analyze_packets ?one) = [2000]"
    by (simp add: run_analysis)
  have three: "latency_samples (analyze_packets ?three) = [1000, 2000, 3000]"
    by (simp add: run_analysis)
  have sd: "sample_stddev [1000, 2000, 3000] = 1000"
    by (simp add: sample_stddev_def sample_mean_def)
  show ?thesis
    using jitter_by_sample_count [of ?one] jitter_by_sample_count [of ?three]
    by (simp add: one three sd)
qed

text \<open>
  C1 as the specification states it fails: a trace with one matched pair has one sample and
  its jitter is 0, not null.
\<close>

theorem jitter_one_sample_counterexample:
  "length (latency_samples (analyze_packets
      [echo_request ''A'' ''B'' 1 0 0, echo_reply ''B'' ''A'' 1 0 2])) = 1 \<and>
   jitter_ms (analyze_packets
      [echo_request ''A'' ''B'' 1 0 0, echo_reply ''B'' ''A'' 1 0 2]) = Some 0 \<and>
   jitter_ms (analyze_packets
      [echo_request ''A'' ''B'' 1 0 0, echo_reply ''B'' ''A'' 1 0 2]) \<noteq> None"
  by (simp add: run_analysis)

text \<open>
  C5, as the code has it: the throughput is the integer part of
  \<open>total_bytes * 8 / duration\<close> (line 29 applies \<open>int\<close>) when the reported duration is
  positive, and 0 when it is 0; the reported duration is the time from the first to the
  last packet, or 0 when that is not positive.
\<close>

theorem throughput_floor:
  "total_bytes (analyze_packets tr) = sum_list (map wire_len tr) \<and>
   capture_duration_sec (analyze_packets tr) =
     (if tr = [] then 0 else max 0 (time (last tr) - time (hd tr))) \<and>
   (0 < capture_duration_sec (analyze_packets tr) \<longrightarrow>
      throughput_bps (analyze_packets tr) =
        \<lfloor>real (total_bytes (analyze_packets tr) * 8) / capture_duration_sec (analyze_packets tr)\<rfloor>) \<and>
   (capture_duration_sec (analyze_packets tr) = 0 \<longrightarrow> throughput_bps (analyze_packets tr) = 0)"
  by (auto simp: analyze_packets_def Let_def py_int_def)

text \<open>
  The example of C5: two packets of 100 bytes over a window of 1.0 s give 1600 bits per
  second; two packets with the same timestamp give duration 0 and throughput 0.
\<close>

theorem throughput_floor_witness:
  "0 < capture_duration_sec (analyze_packets
      [echo_request ''A'' ''B'' 1 0 0, echo_reply ''B'' ''A'' 1 0 1]) \<and>
   throughput_bps (analyze_packets
      [echo_request ''A'' ''B'' 1 0 0, echo_reply ''B'' ''A'' 1 0 1]) = 1600 \<and>
   capture_duration_sec (analyze_packets
      [echo_request ''A'' ''B'' 1 0 5, echo_reply ''B'' ''A'' 1 0 5]) = 0 \<and>
   throughput_bps (analyze_packets
      [echo_request ''A'' ''B'' 1 0 5, echo_reply ''B'' ''A'' 1 0 5]) = 0"
proof -
  let ?a = "[echo_request ''A'' ''B'' 1 0 0, echo_reply ''B'' ''A'' 1 0 1]"
  let ?b = "[echo_request ''A'' ''B'' 1 0 5, echo_reply ''B'' ''A'' 1 0 5]"
  have a: "capture_duration_sec (analyze_packets ?a) = 1" "total_bytes (analyze_packets ?a) = 200"
    by (simp_all add: run_analysis)
  have b: "capture_duration_sec (analyze_packets ?b) = 0"
    by (simp add: run_analysis)
  show ?thesis
    using throughput_floor [of ?a] throughput_floor [of ?b] unfolding a b by simp
qed

text \<open>
  C5 with the exact quotient fails: two packets of 100 bytes over 3 seconds give 533, not
  1600/3.
\<close>

theorem throughput_truncated_counterexample:
  "total_bytes (analyze_packets
      [echo_request ''A'' ''B'' 1 0 0, echo_reply ''B'' ''A'' 1 0 3]) = 200 \<and>
   capture_duration_sec (analyze_packets
      [echo_request ''A'' ''B'' 1 0 0, echo_reply ''B'' ''A'' 1 0 3]) = 3 \<and>
   throughput_bps (analyze_packets
      [echo_request ''A'' ''B'' 1 0 0, echo_reply ''B'' ''A'' 1 0 3]) = 533 \<and>
   real_of_int (throughput_bps (analyze_packets
      [echo_request ''A'' ''B'' 1 0 0, echo_reply ''B'' ''A'' 1 0 3])) \<noteq> 200 * 8 / 3"
  by (simp add: run_analysis)

text \<open>
  C2: the latency samples are the round-trip times of a list of pairs of trace positions
  in which every pair is an echo request and a reply observed later in the trace whose
  reversed source and destination, identifier and sequence are the request's, with no
  packet touching that key in between (so the first reply wins); no request and no reply
  occurs in two pairs. Requests still pending at the end of the capture are dropped:
  appending unanswered requests to a trace changes neither the samples nor the average
  latency nor the jitter, and the analysis returns a record in every case.
\<close>

theorem samples_from_matched_pairs:
  "(\<exists>ms. latency_samples (analyze_packets tr) = map (rtt_of tr) ms \<and> matching tr ms) \<and>
   (\<forall>rs. (\<forall>p \<in> set rs. request_key p \<noteq> None) \<longrightarrow>
      latency_samples (analyze_packets (tr @ rs)) = latency_samples (analyze_packets tr) \<and>
      avg_latency_ms (analyze_packets (tr @ rs)) = avg_latency_ms (analyze_packets tr) \<and>
      jitter_ms (analyze_packets (tr @ rs)) = jitter_ms (analyze_packets tr))"
  using samples_matching [of tr] analyze_trailing_requests [of _ tr]
  by (simp add: latency_samples_analyze)

text \<open>
  C2 on a trace: a request, an unrelated packet and the reply give one pair, and a
  request appended at the end adds no sample.
\<close>

theorem samples_from_matched_pairs_witness:
  "(\<exists>ms. ms \<noteq> [] \<and>
      latency_samples (analyze_packets
        [echo_request ''A'' ''B'' 1 0 0, arp_packet 1, echo_reply ''B'' ''A'' 1 0 2]) =
      map (rtt_of [echo_request ''A'' ''B'' 1 0 0, arp_packet 1, echo_reply ''B'' ''A'' 1 0 2]) ms \<and>
      matching [echo_request ''A'' ''B'' 1 0 0, arp_packet 1, echo_reply ''B'' ''A'' 1 0 2] ms) \<and>
   latency_samples (analyze_packets
     ([echo_request ''A'' ''B'' 1 0 0, arp_packet 1, echo_reply ''B'' ''A'' 1 0 2] @
      [echo_request ''A'' ''B'' 1 1 3])) = [2000]"
proof -
  let ?tr = "[echo_request ''A'' ''B'' 1 0 0, arp_packet 1, echo_reply ''B'' ''A'' 1 0 2]"
  have s: "latency_samples (analyze_packets ?tr) = [2000]"
    by (simp add: run_analysis)
  have r: "\<forall>p \<in> set [echo_request ''A'' ''B'' 1 1 3]. request_key p \<noteq> None"
    by (simp add: run_keys)
  from samples_from_matched_pairs [of ?tr]
  obtain ms where ms: "latency_samples (analyze_packets ?tr) = map (rtt_of ?tr) ms"
    "matching ?tr ms"
    and tl: "latency_samples (analyze_packets (?tr @ [echo_request ''A'' ''B'' 1 1 3])) =
             latency_samples (analyze_packets ?tr)"
    using r by blast
  have "ms \<noteq> []" using ms(1) s by auto
  with ms tl s show ?thesis by auto
qed

text \<open>
  C3: an echo request with key \<open>(A, B, id, seq)\<close> at time \<open>t0\<close> and the later echo reply
  with key \<open>(B, A, id, seq)\<close> at time \<open>t1 > t0\<close> that answers it (no packet touches the
  key between the two), anywhere in a trace: the reply adds the sample
  \<open>(t1 - t0) * 1000\<close> exactly once, at its own place, after the samples of what comes
  before and followed by the samples of what comes after, which are computed with the
  request no longer pending; the sample is positive. What comes before and after is
  arbitrary.
\<close>

theorem request_reply_rtt:
  assumes "request_key req = Some k" and "reply_key rep = Some k"
    and "time req < time rep"
    and "\<forall>p \<in> set mid. \<not> touches k p"
  shows "latency_samples (analyze_packets (pre @ req # mid @ rep # post)) =
           latency_samples (analyze_packets (pre @ mid)) @
           (time rep - time req) * 1000 #
           fst (match_rtts post
                 ([], (snd (match_rtts (pre @ mid) ([], Map.empty)))(k := None))) \<and>
         latency_samples (analyze_packets (pre @ req # mid @ [rep])) =
           latency_samples (analyze_packets (pre @ mid)) @ [(time rep - time req) * 1000] \<and>
         0 < (time rep - time req) * 1000"
  using reply_appends [OF assms(1,2,4), of pre post "([], Map.empty)"]
    reply_appends [OF assms(1,2,4), of pre "[]" "([], Map.empty)"] assms(3)
  by (simp only: latency_samples_analyze) simp

text \<open>
  C3 on a trace: request at 0, an unrelated packet, reply at 2, followed by a second reply
  with the same key (which finds nothing pending) and a new request and reply with the same
  key.
\<close>

theorem request_reply_rtt_witness:
  "request_key (echo_request ''A'' ''B'' 1 0 0) = Some (''A'', ''B'', 1, 0) \<and>
   reply_key (echo_reply ''B'' ''A'' 1 0 2) = Some (''A'', ''B'', 1, 0) \<and>
   time (echo_request ''A'' ''B'' 1 0 0) < time (echo_reply ''B'' ''A'' 1 0 2) \<and>
   latency_samples (analyze_packets
     ([] @ echo_request ''A'' ''B'' 1 0 0 # [arp_packet 1] @ echo_reply ''B'' ''A'' 1 0 2 #
      [echo_reply ''B'' ''A'' 1 0 3, echo_request ''A'' ''B'' 1 0 4,
       echo_reply ''B'' ''A'' 1 0 5])) = [2000, 1000] \<and>
   latency_samples (analyze_packets
     ([] @ echo_request ''A'' ''B'' 1 0 0 # [arp_packet 1] @ [echo_reply ''B'' ''A'' 1 0 2])) =
     [2000]"
proof -
  have h1: "request_key (echo_request ''A'' ''B'' 1 0 0) = Some (''A'', ''B'', 1, 0)"
    and h2: "reply_key (echo_reply ''B'' ''A'' 1 0 2) = Some (''A'', ''B'', 1, 0)"
    and h3: "time (echo_request ''A'' ''B'' 1 0 0) < time (echo_reply ''B'' ''A'' 1 0 2)"
    and h4: "\<forall>p \<in> set [arp_packet 1]. \<not> touches (''A'', ''B'', 1, 0) p"
    by (simp_all add: run_keys)
  have a: "latency_samples (analyze_packets ([] @ [arp_packet 1])) = []"
    by (simp add: run_analysis)
  have b: "fst (match_rtts [echo_reply ''B'' ''A'' 1 0 3, echo_request ''A'' ''B'' 1 0 4,
                  echo_reply ''B'' ''A'' 1 0 5]
             ([], (snd (match_rtts ([] @ [arp_packet 1]) ([], Map.empty)))
                    ((''A'', ''B'', 1, 0) := None))) = [1000]"
    by (simp add: run_analysis)
  have t: "(time (echo_reply ''B'' ''A'' 1 0 2) - time (echo_request ''A'' ''B'' 1 0 0)) * 1000 = 2000"
    by (simp add: echo_request_def echo_reply_def)
  show ?thesis
    using request_reply_rtt [OF h1 h2 h3 h4, of "[]"
        "[echo_reply ''B'' ''A'' 1 0 3, echo_request ''A'' ''B'' 1 0 4,
          echo_reply ''B'' ''A'' 1 0 5]"] h1 h2 h3
    unfolding a b t by simp
qed

text \<open>
  C10: two echo requests with the same key at times \<open>t0 < t1\<close> and one matching reply at
  \<open>t2\<close>, with no other packet touching that key after the first request: the three
  packets add exactly one sample to what the rest of the trace yields, and it is
  \<open>(t2 - t1) * 1000\<close>, computed from the later request, which differs from
  \<open>(t2 - t0) * 1000\<close>.
\<close>

theorem latest_request_wins:
  assumes "request_key req0 = Some k" and "request_key req1 = Some k"
    and "reply_key rep = Some k" and "time req0 < time req1"
    and "\<forall>p \<in> set mid1. \<not> touches k p" and "\<forall>p \<in> set mid2. \<not> touches k p"
    and "\<forall>p \<in> set post. \<not> touches k p"
  shows "latency_samples (analyze_packets (pre @ req0 # mid1 @ req1 # mid2 @ rep # post)) =
           latency_samples (analyze_packets (pre @ mid1 @ mid2)) @
           (time rep - time req1) * 1000 #
           drop (length (latency_samples (analyze_packets (pre @ mid1 @ mid2))))
             (latency_samples (analyze_packets (pre @ mid1 @ mid2 @ post))) \<and>
         (time rep - time req1) * 1000 \<noteq> (time rep - time req0) * 1000"
proof -
  let ?s = "([], Map.empty) :: rtt_state"
  have m12: "\<forall>p \<in> set (mid1 @ mid2). \<not> touches k p"
    and m12p: "\<forall>p \<in> set (mid1 @ mid2 @ post). \<not> touches k p"
    using assms(5,6,7) by auto
  have a: "fst (match_rtts ((pre @ req0 # mid1) @ req1 # mid2 @ rep # post) ?s) =
           fst (match_rtts ((pre @ req0 # mid1) @ mid2) ?s) @ (time rep - time req1) * 1000 #
           drop (length (fst (match_rtts ((pre @ req0 # mid1) @ mid2) ?s)))
             (fst (match_rtts ((pre @ req0 # mid1) @ mid2 @ post) ?s))"
    by (rule reply_consumes [OF assms(2,3,6,7)])
  have b: "fst (match_rtts ((pre @ req0 # mid1) @ mid2) ?s) = fst (match_rtts (pre @ mid1 @ mid2) ?s)"
    using unanswered_request [OF assms(1) m12, of pre ?s] by simp
  have c: "fst (match_rtts ((pre @ req0 # mid1) @ mid2 @ post) ?s) =
           fst (match_rtts (pre @ mid1 @ mid2 @ post) ?s)"
    using unanswered_request [OF assms(1) m12p, of pre ?s] by simp
  have d: "(time rep - time req1) * 1000 \<noteq> (time rep - time req0) * 1000"
    using assms(4) by simp
  have e: "pre @ req0 # mid1 @ req1 # mid2 @ rep # post =
           (pre @ req0 # mid1) @ req1 # mid2 @ rep # post" by simp
  show ?thesis
    unfolding latency_samples_analyze e a b c using d by simp
qed

text \<open>
  C10 on a trace: requests at 0 and 1, the reply at 3, with packets of other kinds and
  keys around them.
\<close>

theorem latest_request_wins_witness:
  "request_key (echo_request ''A'' ''B'' 1 0 0) = Some (''A'', ''B'', 1, 0) \<and>
   request_key (echo_request ''A'' ''B'' 1 0 1) = Some (''A'', ''B'', 1, 0) \<and>
   reply_key (echo_reply ''B'' ''A'' 1 0 3) = Some (''A'', ''B'', 1, 0) \<and>
   time (echo_request ''A'' ''B'' 1 0 0) < time (echo_request ''A'' ''B'' 1 0 1) \<and>
   latency_samples (analyze_packets
     ([] @ echo_request ''A'' ''B'' 1 0 0 # [arp_packet (1 / 2)] @
      echo_request ''A'' ''B'' 1 0 1 # [echo_request ''A'' ''B'' 1 1 2] @
      echo_reply ''B'' ''A'' 1 0 3 # [arp_packet 4])) = [2000]"
proof -
  have h1: "request_key (echo_request ''A'' ''B'' 1 0 0) = Some (''A'', ''B'', 1, 0)"
    and h2: "request_key (echo_request ''A'' ''B'' 1 0 1) = Some (''A'', ''B'', 1, 0)"
    and h3: "reply_key (echo_reply ''B'' ''A'' 1 0 3) = Some (''A'', ''B'', 1, 0)"
    and h4: "time (echo_request ''A'' ''B'' 1 0 0) < time (echo_request ''A'' ''B'' 1 0 1)"
    and h5: "\<forall>p \<in> set [arp_packet (1 / 2)]. \<not> touches (''A'', ''B'', 1, 0) p"
    and h6: "\<forall>p \<in> set [echo_request ''A'' ''B'' 1 1 2]. \<not> touches (''A'', ''B'', 1, 0) p"
    and h7: "\<forall>p \<in> set [arp_packet 4]. \<not> touches (''A'', ''B'', 1, 0) p"
    by (simp_all add: run_keys)
  have a: "latency_samples (analyze_packets
             ([] @ [arp_packet (1 / 2)] @ [echo_request ''A'' ''B'' 1 1 2])) = []"
    and b: "latency_samples (analyze_packets
             ([] @ [arp_packet (1 / 2)] @ [echo_request ''A'' ''B'' 1 1 2] @ [arp_packet 4])) = []"
    by (simp_all add: run_analysis)
  have t: "(time (echo_reply ''B'' ''A'' 1 0 3) - time (echo_request ''A'' ''B'' 1 0 1)) * 1000 = 2000"
    by (simp add: echo_request_def echo_reply_def)
  show ?thesis
    using latest_request_wins [OF h1 h2 h3 h4 h5 h6 h7, of "[]"] h1 h2 h3 h4 h5 h6 h7
    unfolding a b t by simp
qed

section \<open>Properties of the obfuscation transforms\<close>

text \<open>
  \<open>randint\<close> returns a value of the range, and every value of the range is drawn by some \<open>r\<close>.
\<close>

lemma randint_range: "a \<le> b \<Longrightarrow> \<exists>n. randint a b r = Inr n \<and> a \<le> n \<and> n \<le> b"
proof -
  assume ab: "a \<le> b"
  have "r mod nat (b - a + 1) < nat (b - a + 1)" using ab by simp
  then have "int (r mod nat (b - a + 1)) \<le> b - a" using ab by linarith
  then show ?thesis using ab by (simp add: randint_def)
qed

lemma randint_onto: "a \<le> n \<Longrightarrow> n \<le> b \<Longrightarrow> randint a b (nat (n - a)) = Inr n"
  by (simp add: randint_def)

text \<open>
  C8: the constructor fails exactly when a key is passed whose length is not 16, 24 or
  32 bytes, and then with \<open>ValueError\<close>; without a key it succeeds with the key of 16
  bytes \<open>0x01\<close>.
\<close>

theorem encryption_key_length_check:
  "((\<exists>e. encryption_obfuscator_init key_arg = Inl e) \<longleftrightarrow>
      (\<exists>k. key_arg = Some k \<and> length k \<noteq> 16 \<and> length k \<noteq> 24 \<and> length k \<noteq> 32)) \<and>
   (\<forall>e. encryption_obfuscator_init key_arg = Inl e \<longrightarrow> e = ValueError) \<and>
   encryption_obfuscator_init None = Inr \<lparr> key = replicate 16 1 \<rparr>"
  by (cases key_arg) (auto simp: encryption_obfuscator_init_def)

text \<open>
  C8 on keys of 15 and of 24 bytes, and without a key.
\<close>

theorem encryption_key_length_check_witness:
  "encryption_obfuscator_init (Some (replicate 15 7)) = Inl ValueError \<and>
   encryption_obfuscator_init (Some (replicate 24 7)) = Inr \<lparr> key = replicate 24 7 \<rparr> \<and>
   encryption_obfuscator_init None = Inr \<lparr> key = replicate 16 1 \<rparr>"
proof -
  have "\<exists>e. encryption_obfuscator_init (Some (replicate 15 (7 :: 8 word))) = Inl e"
    using encryption_key_length_check [of "Some (replicate 15 7)"] by simp
  then have a: "encryption_obfuscator_init (Some (replicate 15 (7 :: 8 word))) = Inl ValueError"
    using encryption_key_length_check [of "Some (replicate 15 7)"] by blast
  have "\<not> (\<exists>e. encryption_obfuscator_init (Some (replicate 24 (7 :: 8 word))) = Inl e)"
    using encryption_key_length_check [of "Some (replicate 24 7)"] by simp
  then have b: "encryption_obfuscator_init (Some (replicate 24 (7 :: 8 word))) = Inr \<lparr> key = replicate 24 7 \<rparr>"
    by (simp add: encryption_obfuscator_init_def)
  show ?thesis using a b encryption_key_length_check [of None] by simp
qed

text \<open>
  C7: for a key of 16, 24 or 32 bytes the constructor succeeds and \<open>encrypt\<close> returns
  nonce, then tag, then ciphertext; with a cipher that meets the library's contract the
  length of the output is nonce length + tag length + plaintext length, the same for every
  draw of the nonce and every plaintext of that length.
\<close>

theorem encrypt_layout_and_length:
  assumes "length k = 16 \<or> length k = 24 \<or> length k = 32"
    and "eax_contract aes_new n t"
  shows "encryption_obfuscator_init (Some k) = Inr \<lparr> key = k \<rparr> \<and>
         encrypt (Some aes_new) \<lparr> key = k \<rparr> rnd data =
           Inr (nonce (aes_new k rnd) @ snd (encrypt_and_digest (aes_new k rnd) data) @
                fst (encrypt_and_digest (aes_new k rnd) data)) \<and>
         (\<exists>out. encrypt (Some aes_new) \<lparr> key = k \<rparr> rnd data = Inr out \<and>
                 length out = n + t + length data) \<and>
         (\<forall>rnd' data'. length data' = length data \<longrightarrow>
            map_sum id length (encrypt (Some aes_new) \<lparr> key = k \<rparr> rnd' data') =
            map_sum id length (encrypt (Some aes_new) \<lparr> key = k \<rparr> rnd data))"
proof -
  have i: "encryption_obfuscator_init (Some k) = Inr \<lparr> key = k \<rparr>"
    using assms(1) by (auto simp: encryption_obfuscator_init_def)
  have e: "encrypt (Some aes_new) \<lparr> key = k \<rparr> r d =
           Inr (nonce (aes_new k r) @ snd (encrypt_and_digest (aes_new k r) d) @
                fst (encrypt_and_digest (aes_new k r) d))" for r d
    by (simp add: encrypt_def Let_def split: prod.splits)
  have l: "length (nonce (aes_new k r) @ snd (encrypt_and_digest (aes_new k r) d) @
                fst (encrypt_and_digest (aes_new k r) d)) = n + t + length d" for r d
    using assms(2) by (simp add: eax_contract_def)
  show ?thesis
    unfolding e using i l by (simp del: length_append)
qed

text \<open>
  C7 on the stand-in cipher: two draws of the nonce give outputs of the same length and
  layout that differ in their bytes.
\<close>

theorem encrypt_layout_and_length_witness:
  "eax_contract xor_eax 16 16 \<and>
   encrypt (Some xor_eax) \<lparr> key = replicate 16 1 \<rparr> (\<lambda>i. 0) [1, 2, 3] =
     Inr (replicate 16 0 @ replicate 16 1 @ [0, 3, 2]) \<and>
   encrypt (Some xor_eax) \<lparr> key = replicate 16 1 \<rparr> (\<lambda>i. 9) [1, 2, 3] =
     Inr (replicate 16 9 @ replicate 16 1 @ [0, 3, 2])"
proof -
  have c: "eax_contract xor_eax 16 16"
    by (simp add: eax_contract_def xor_eax_def)
  have k: "length (replicate 16 (1 :: 8 word)) = 16 \<or> length (replicate 16 (1 :: 8 word)) = 24
           \<or> length (replicate 16 (1 :: 8 word)) = 32" by simp
  have n: "map (\<lambda>i. v) [0..<16] = replicate 16 (v :: 8 word)" for v
    by (simp add: map_replicate_const)
  have x: "xor (1 :: 8 word) 1 = 0" "xor (2 :: 8 word) 1 = 3" "xor (3 :: 8 word) 1 = 2"
    by simp_all
  show ?thesis
    using encrypt_layout_and_length [OF k c, of "\<lambda>i. 0" "[1, 2, 3]"]
      encrypt_layout_and_length [OF k c, of "\<lambda>i. 9" "[1, 2, 3]"] c
    by (simp add: xor_eax_def n x)
qed

text \<open>
  C6: with \<open>0 \<le> min_pad \<le> max_pad\<close>, for every draw, \<open>pad\<close> returns the input followed
  by a suffix whose length is the drawn pad length and lies between \<open>min_pad\<close> and
  \<open>max_pad\<close>; when \<open>max_pad = 0\<close> or the drawn length is 0 it returns the input
  unchanged.
\<close>

theorem pad_appends_bounded_suffix:
  assumes "0 \<le> min_pad self" and "min_pad self \<le> max_pad self"
  shows "\<exists>n padding. draw_pad_length self r = Inr n \<and>
           pad self r rnd data = Inr (data @ padding) \<and>
           int (length padding) = n \<and>
           min_pad self \<le> int (length padding) \<and> int (length padding) \<le> max_pad self \<and>
           (max_pad self = 0 \<longrightarrow> pad self r rnd data = Inr data) \<and>
           (n = 0 \<longrightarrow> pad self r rnd data = Inr data)"
proof (cases "max_pad self > 0")
  case True
  obtain n where n: "randint (min_pad self) (max_pad self) r = Inr n"
    "min_pad self \<le> n" "n \<le> max_pad self"
    using randint_range [OF assms(2), of r] by blast
  have d: "draw_pad_length self r = Inr n" using True n(1) by (simp add: draw_pad_length_def)
  show ?thesis
  proof (cases "n \<le> 0")
    case True
    then have "n = 0" using assms(1) n(2) by simp
    then show ?thesis using d n \<open>max_pad self > 0\<close> by (simp add: pad_def)
  next
    case False
    then have "pad self r rnd data = Inr (data @ urandom rnd (nat n))"
      by (simp add: pad_def d)
    moreover have "int (length (urandom rnd (nat n))) = n" using False by (simp add: urandom_def)
    ultimately show ?thesis using d n False \<open>max_pad self > 0\<close> by auto
  qed
next
  case False
  then have "max_pad self = 0" "min_pad self = 0" using assms by simp_all
  then show ?thesis by (simp add: pad_def draw_pad_length_def)
qed

text \<open>
  C6 on the bounds 2 and 5 with a draw that gives 4 bytes, and on the bounds 0 and 0.
\<close>

theorem pad_appends_bounded_suffix_witness:
  "(0::int) \<le> min_pad \<lparr> min_pad = 2, max_pad = 5 \<rparr> \<and>
   min_pad \<lparr> min_pad = 2, max_pad = 5 \<rparr> \<le> max_pad \<lparr> min_pad = 2, max_pad = 5 \<rparr> \<and>
   pad \<lparr> min_pad = 2, max_pad = 5 \<rparr> 6 (\<lambda>i. 255) [1, 2, 3] = Inr ([1, 2, 3] @ [255, 255, 255, 255]) \<and>
   pad \<lparr> min_pad = 0, max_pad = 0 \<rparr> 6 (\<lambda>i. 255) [1, 2, 3] = Inr [1, 2, 3]"
proof -
  have h: "(0::int) \<le> min_pad \<lparr> min_pad = 2, max_pad = 5 \<rparr>"
    "min_pad \<lparr> min_pad = 2, max_pad = 5 \<rparr> \<le> max_pad \<lparr> min_pad = 2, max_pad = 5 \<rparr>"
    by simp_all
  have h0: "(0::int) \<le> min_pad \<lparr> min_pad = 0, max_pad = 0 \<rparr>"
    "min_pad \<lparr> min_pad = 0, max_pad = 0 \<rparr> \<le> max_pad \<lparr> min_pad = 0, max_pad = 0 \<rparr>"
    by simp_all
  have d: "draw_pad_length \<lparr> min_pad = 2, max_pad = 5 \<rparr> 6 = Inr 4"
    by (simp add: draw_pad_length_def randint_def)
  obtain padding where p: "pad \<lparr> min_pad = 2, max_pad = 5 \<rparr> 6 (\<lambda>i. 255) [1, 2, 3] = Inr ([1, 2, 3] @ padding)"
    "int (length padding) = 4"
    using pad_appends_bounded_suffix [OF h, of 6 "\<lambda>i. 255" "[1, 2, 3]"] d by auto
  have e: "pad \<lparr> min_pad = 2, max_pad = 5 \<rparr> 6 (\<lambda>i. 255) [1, 2, 3] = Inr ([1, 2, 3] @ [255, 255, 255, 255])"
    by (simp add: pad_def d urandom_def upt_rec)
  have z: "pad \<lparr> min_pad = 0, max_pad = 0 \<rparr> 6 (\<lambda>i. 255) [1, 2, 3] = Inr [1, 2, 3]"
    using pad_appends_bounded_suffix [OF h0, of 6 "\<lambda>i. 255" "[1, 2, 3]"] by simp
  show ?thesis using h e z by simp
qed

text \<open>
  C4, as the code has it: in constant mode with a target rate \<open>R > 0\<close> the delay is
  \<open>S * 8 / R\<close> for every packet size \<open>S > 0\<close>; when no target rate is configured (or it
  is 0), or the packet size is absent or 0 (the guard of line 75), the delay is
  \<open>min_delay\<close>, which \<open>time.sleep\<close> accepts when it is not negative.
\<close>

theorem shape_constant_delay:
  assumes "mode self = ''constant''"
  shows "(\<forall>R S. rate_bps self = Some R \<and> 0 < R \<and> 0 < S \<longrightarrow>
            shape self u (Some S) = Inr (Some (real_of_int S * 8 / R))) \<and>
         ((rate_bps self = None \<or> rate_bps self = Some 0 \<or> packet_size = None \<or>
           packet_size = Some 0) \<and> 0 \<le> min_delay self \<longrightarrow>
            shape self u packet_size = Inr (Some (min_delay self)))"
proof -
  have a: "shape self u (Some S) = Inr (Some (real_of_int S * 8 / R))"
    if "rate_bps self = Some R" "0 < R" "0 < S" for R S
  proof -
    define d where "d = real_of_int S * 8 / R"
    have dpos: "0 < d" using that by (simp add: d_def)
    have "shape self u (Some S) = (if d > 0 then sleep d else Inr None)"
      using assms that by (simp add: shape_def Let_def d_def)
    also have "\<dots> = Inr (Some d)" using dpos by (simp add: sleep_def)
    finally show ?thesis by (simp add: d_def)
  qed
  have b: "shape self u packet_size = Inr (Some (min_delay self))"
    if "rate_bps self = None \<or> rate_bps self = Some 0 \<or> packet_size = None \<or>
        packet_size = Some 0" "0 \<le> min_delay self"
    using assms that by (auto simp: shape_def sleep_def split: option.splits)
  show ?thesis using a b by blast
qed

text \<open>
  C4 on a shaper at 8000 bits per second and a packet of 100 bytes, and on a shaper
  without a target rate.
\<close>

theorem shape_constant_delay_witness:
  "shape \<lparr> mode = ''constant'', min_delay = 1 / 100, max_delay = 1 / 10, rate_bps = Some 8000 \<rparr>
     0 (Some 100) = Inr (Some (1 / 10)) \<and>
   shape \<lparr> mode = ''constant'', min_delay = 1 / 100, max_delay = 1 / 10, rate_bps = None \<rparr>
     0 (Some 100) = Inr (Some (1 / 100))"
proof -
  let ?a = "\<lparr> mode = ''constant'', min_delay = 1 / 100, max_delay = 1 / 10, rate_bps = Some 8000 \<rparr>"
  let ?b = "\<lparr> mode = ''constant'', min_delay = 1 / 100, max_delay = 1 / 10, rate_bps = None \<rparr>"
  have a: "mode ?a = ''constant''" and b: "mode ?b = ''constant''" by simp_all
  show ?thesis
    using shape_constant_delay [OF a, of 0 "Some 100"] shape_constant_delay [OF b, of 0 "Some 100"]
    by simp
qed

text \<open>
  C4 for every packet size fails: at packet size 0 with a target rate of 8000 the delay is
  \<open>min_delay\<close>, not \<open>0 * 8 / 8000\<close>.
\<close>

theorem shape_zero_size_counterexample:
  "mode \<lparr> mode = ''constant'', min_delay = 1 / 100, max_delay = 1 / 10, rate_bps = Some 8000 \<rparr>
     = ''constant'' \<and>
   shape \<lparr> mode = ''constant'', min_delay = 1 / 100, max_delay = 1 / 10, rate_bps = Some 8000 \<rparr>
     0 (Some 0) = Inr (Some (1 / 100)) \<and>
   (1 / 100 :: real) \<noteq> real_of_int 0 * 8 / 8000"
  by (simp add: shape_def sleep_def)

end
